theory Spec2Isabelle
  imports Main "HOL-Library.Multiset" "HOL-Library.Sublist" "HOL-Library.Word"
begin

section \<open>The comparator \<open>MyComparator<T>\<close>\<close>

text \<open>
  \<^verbatim>\<open>template<typename T> struct MyComparator {
    T operator()(const T& val1, const T& val2) const { return val1 - val2; }
  };\<close>
  The struct has no fields: it has one value. The element type \<open>T\<close> of the template is a
  type variable; its \<open>operator-\<close> is the \<open>minus\<close> of the type, and the test \<open>... < 0\<close> that
  \<open>push\<close> applies to the result is the type's order against its zero.
\<close>

datatype 'a MyComparator = MyComparator

definition MyComparator_call :: "'a::minus MyComparator \<Rightarrow> 'a \<Rightarrow> 'a \<Rightarrow> 'a" where
  "MyComparator_call c val1 val2 = val1 - val2"

section \<open>The exception \<open>EmptyPriorityQueue\<close>\<close>

datatype EmptyPriorityQueue = EmptyPriorityQueue

definition what :: "EmptyPriorityQueue \<Rightarrow> string" where
  "what e = ''PriorityQueue is empty!''"

section \<open>The class \<open>PriorityQueue<T>\<close>\<close>

text \<open>
  The two private members: \<open>std::list<T> _data\<close> and \<open>MyComparator<T> _compare\<close>. The class
  declares no constructor, so a queue is default-constructed: an empty list and the
  comparator's only value.
\<close>

record 'a PriorityQueue =
  data :: "'a list"
  compare :: "'a MyComparator"

definition PriorityQueue_new :: "'a PriorityQueue" where
  "PriorityQueue_new = \<lparr>data = [], compare = MyComparator\<rparr>"

text \<open>
  The loop of \<open>push\<close>:
  \<^verbatim>\<open>auto it = _data.begin();
  while (it != _data.end() && _compare(*it, t) < 0) { ++it; }\<close>
  The iterator is its distance from \<open>begin()\<close>; the list argument is what lies from the
  iterator to \<open>end()\<close>.
\<close>

fun push_loop :: "'a::{minus,zero,ord} MyComparator \<Rightarrow> 'a list \<Rightarrow> 'a \<Rightarrow> nat" where
  "push_loop c [] t = 0"
| "push_loop c (e # es) t =
     (if MyComparator_call c e t < 0 then Suc (push_loop c es t) else 0)"

text \<open>\<open>std::list::insert(it, t)\<close>: \<open>t\<close> goes in front of the element at \<open>it\<close>.\<close>

definition list_insert :: "nat \<Rightarrow> 'a \<Rightarrow> 'a list \<Rightarrow> 'a list" where
  "list_insert i t xs = take i xs @ t # drop i xs"

definition push :: "'a::{minus,zero,ord} \<Rightarrow> 'a PriorityQueue \<Rightarrow> 'a PriorityQueue" where
  "push t q = q\<lparr>data := list_insert (push_loop (compare q) (data q) t) t (data q)\<rparr>"

text \<open>
  \<open>poll\<close> throws before it touches \<open>_data\<close>; otherwise it copies the front, pops it and
  returns the copy. The result is the thrown exception or the returned element, with the
  queue after the call.
\<close>

definition poll :: "'a PriorityQueue \<Rightarrow> (EmptyPriorityQueue + 'a) \<times> 'a PriorityQueue" where
  "poll q =
     (if data q = [] then (Inl EmptyPriorityQueue, q)
      else (Inr (hd (data q)), q\<lparr>data := tl (data q)\<rparr>))"

section \<open>Sequences of calls\<close>

datatype 'a operation = Push 'a | Poll

text \<open>One call made by a client that catches the exception of \<open>poll\<close>.\<close>

fun step :: "'a::{minus,zero,ord} PriorityQueue \<Rightarrow> 'a operation \<Rightarrow> 'a PriorityQueue" where
  "step q (Push t) = push t q"
| "step q Poll = snd (poll q)"

definition run :: "'a::{minus,zero,ord} operation list \<Rightarrow> 'a PriorityQueue" where
  "run ops = foldl step PriorityQueue_new ops"

definition push_all :: "'a::{minus,zero,ord} list \<Rightarrow> 'a PriorityQueue \<Rightarrow> 'a PriorityQueue" where
  "push_all vs q = foldl (\<lambda>q' v. push v q') q vs"

fun poll_n :: "nat \<Rightarrow> 'a PriorityQueue \<Rightarrow> (EmptyPriorityQueue + 'a) list \<times> 'a PriorityQueue" where
  "poll_n 0 q = ([], q)"
| "poll_n (Suc n) q =
     (case poll q of (r, q1) \<Rightarrow> (case poll_n n q1 of (rs, q2) \<Rightarrow> (r # rs, q2)))"

section \<open>Predicates on the stored sequence\<close>

text \<open>Adjacent elements \<open>a\<close> (earlier), \<open>b\<close> (later) have \<open>compare(a, b) <= 0\<close>.\<close>

fun ordered :: "'a::{minus,zero,ord} MyComparator \<Rightarrow> 'a list \<Rightarrow> bool" where
  "ordered c (a # b # xs) = (MyComparator_call c a b \<le> 0 \<and> ordered c (b # xs))"
| "ordered c xs = True"

text \<open>
  The invariant as the data model of the specification writes it: adjacent elements
  \<open>a\<close> (earlier), \<open>b\<close> (later) have \<open>compare(a, b) >= 0\<close>.
\<close>

fun spec_invariant :: "'a::{minus,zero,ord} MyComparator \<Rightarrow> 'a list \<Rightarrow> bool" where
  "spec_invariant c (a # b # xs) = (0 \<le> MyComparator_call c a b \<and> spec_invariant c (b # xs))"
| "spec_invariant c xs = True"

text \<open>
  The queue of the specification, whose comparator the caller supplies: \<open>push\<close> scans past
  each element \<open>e\<close> with \<open>cmp e value < 0\<close> and inserts in front of the first other one.
\<close>

fun spec_push :: "('a \<Rightarrow> 'a \<Rightarrow> 'r::{zero,ord}) \<Rightarrow> 'a \<Rightarrow> 'a list \<Rightarrow> 'a list" where
  "spec_push cmp v [] = [v]"
| "spec_push cmp v (e # es) = (if cmp e v < 0 then e # spec_push cmp v es else v # e # es)"

section \<open>An element type whose equal ranks can be told apart\<close>

text \<open>
  The template takes any \<open>T\<close> with a subtraction and a comparison against zero. A ticket
  has a rank and a label; subtraction subtracts the ranks, and the order looks at the rank
  only, so two tickets of one rank compare equal and still differ.
\<close>

datatype Ticket = Ticket (rank: int) (label: nat)

instantiation Ticket :: "{minus, zero, preorder}"
begin

definition minus_Ticket :: "Ticket \<Rightarrow> Ticket \<Rightarrow> Ticket" where
  "minus_Ticket a b = Ticket (rank a - rank b) 0"

definition zero_Ticket :: Ticket where
  "zero_Ticket = Ticket 0 0"

definition less_eq_Ticket :: "Ticket \<Rightarrow> Ticket \<Rightarrow> bool" where
  "less_eq_Ticket a b = (rank a \<le> rank b)"

definition less_Ticket :: "Ticket \<Rightarrow> Ticket \<Rightarrow> bool" where
  "less_Ticket a b = (rank a < rank b)"

instance
  by standard (auto simp: less_eq_Ticket_def less_Ticket_def)

end

section \<open>A signed 8-bit element type\<close>

text \<open>
  \<open>T = signed char\<close>: the operands are promoted, \<open>val1 - val2\<close> is computed in \<open>int\<close>
  without overflow, and the return converts the difference back to \<open>T\<close>, which keeps its
  low 8 bits as a two's complement value. The test \<open>... < 0\<close> reads the result as signed.
\<close>

datatype int8 = Int8 (bits: "8 word")

instantiation int8 :: "{minus, zero, preorder}"
begin

definition minus_int8 :: "int8 \<Rightarrow> int8 \<Rightarrow> int8" where
  "minus_int8 a b = Int8 (bits a - bits b)"

definition zero_int8 :: "int8" where
  "zero_int8 = Int8 0"

definition less_eq_int8 :: "int8 \<Rightarrow> int8 \<Rightarrow> bool" where
  "less_eq_int8 a b = (sint (bits a) \<le> sint (bits b))"

definition less_int8 :: "int8 \<Rightarrow> int8 \<Rightarrow> bool" where
  "less_int8 a b = (sint (bits a) < sint (bits b))"

instance
  by standard (auto simp: less_eq_int8_def less_int8_def)

end

section \<open>Basic facts\<close>

lemma push_loop_takeWhile:
  "push_loop c xs t = length (takeWhile (\<lambda>e. MyComparator_call c e t < 0) xs)"
  by (induction xs) auto

lemma push_loop_le_length: "push_loop c xs t \<le> length xs"
  by (induction xs) auto

lemma data_push:
  "data (push t q) =
     takeWhile (\<lambda>e. MyComparator_call (compare q) e t < 0) (data q) @
     t # dropWhile (\<lambda>e. MyComparator_call (compare q) e t < 0) (data q)"
  by (simp add: push_def list_insert_def push_loop_takeWhile
      takeWhile_eq_take [symmetric] dropWhile_eq_drop [symmetric])

lemma compare_push: "compare (push t q) = compare q"
  by (simp add: push_def)

lemma poll_n_all:
  "poll_n (length (data q)) q = (map Inr (data q), q\<lparr>data := []\<rparr>)"
proof (induction "data q" arbitrary: q)
  case Nil
  then show ?case by simp
next
  case (Cons x xs)
  from Cons.hyps(2) have d: "data q = x # xs" by simp
  have "xs = data (q\<lparr>data := xs\<rparr>)" by simp
  from Cons.hyps(1) [OF this] d show ?case
    by (simp add: poll_def)
qed

lemma compare_unique: "(c :: 'a MyComparator) = c'"
  by (cases c, cases c') simp

lemma emptied_is_new: "q\<lparr>data := []\<rparr> = PriorityQueue_new"
  by (cases q) (simp add: PriorityQueue_new_def compare_unique)

lemma push_all_run: "push_all vs PriorityQueue_new = run (map Push vs)"
proof -
  have "\<And>q. foldl (\<lambda>q' v. push v q') q vs = foldl step q (map Push vs)"
    by (induction vs) simp_all
  then show ?thesis by (simp add: push_all_def run_def)
qed

lemma takeWhile_stops: "\<not> P a \<Longrightarrow> length (takeWhile P (us @ a # vs)) \<le> length us"
  by (induction us) auto

lemma Ticket_rank:
  fixes e v :: Ticket
  shows "(MyComparator_call c e v < 0) = (rank e < rank v)"
  by (simp add: MyComparator_call_def minus_Ticket_def zero_Ticket_def less_Ticket_def)

text \<open>
  The example of the specification's property P5 on \<open>int\<close>: push 5, 1, 3; poll gives 1;
  push 2; the polls give 2, 3, 5 and then the exception.
\<close>

lemma interleaving_example:
  "poll (run [Push 5, Push 1, Push (3::int)]) = (Inr 1, run [Push 5, Push 1, Push 3, Poll]) \<and>
   fst (poll_n 4 (run [Push 5, Push 1, Push (3::int), Poll, Push 2])) =
     [Inr 2, Inr 3, Inr 5, Inl EmptyPriorityQueue]"
  by (simp add: run_def PriorityQueue_new_def push_def poll_def list_insert_def
      MyComparator_call_def eval_nat_numeral)

section \<open>The scan as an insertion by rank\<close>

text \<open>
  Where the sign of \<open>e - v\<close> follows a rank \<open>f\<close> into a linear order, the scan and the
  insertion are one step of insertion sort by \<open>f\<close>: the new element goes in front of the
  first element whose rank is not below its own.
\<close>

lemma list_insert_insort_key:
  fixes f :: "'a::{minus,zero,ord} \<Rightarrow> 'k::linorder"
  assumes R: "\<And>e v. (MyComparator_call c e v < 0) = (f e < f v)"
  shows "list_insert (push_loop c xs t) t xs = insort_key f t xs"
  by (induction xs) (auto simp: list_insert_def R)

lemma data_push_insort_key:
  fixes f :: "'a::{minus,zero,ord} \<Rightarrow> 'k::linorder"
  assumes R: "\<And>e v. (MyComparator_call MyComparator e v < 0) = (f e < f v)"
  shows "data (push t q) = insort_key f t (data q)"
proof -
  have "compare q = MyComparator" by (rule compare_unique)
  then show ?thesis
    unfolding push_def using list_insert_insort_key [of MyComparator f "data q" t] R by simp
qed

lemma data_push_all_foldr:
  fixes f :: "'a::{minus,zero,ord} \<Rightarrow> 'k::linorder"
  assumes R: "\<And>e v. (MyComparator_call MyComparator e v < 0) = (f e < f v)"
  shows "data (push_all vs q) = foldr (insort_key f) (rev vs) (data q)"
  unfolding push_all_def
  by (induction vs arbitrary: q) (simp_all add: data_push_insort_key [OF R])

lemma data_push_all_sort_key:
  fixes f :: "'a::{minus,zero,ord} \<Rightarrow> 'k::linorder"
  assumes R: "\<And>e v. (MyComparator_call MyComparator e v < 0) = (f e < f v)"
  shows "data (push_all vs PriorityQueue_new) = sort_key f (rev vs)"
  by (simp add: data_push_all_foldr [OF R] sort_key_def PriorityQueue_new_def)

lemma poll_n_push_all:
  fixes f :: "'a::{minus,zero,ord} \<Rightarrow> 'k::linorder"
  assumes R: "\<And>e v. (MyComparator_call MyComparator e v < 0) = (f e < f v)"
  shows "poll_n (length vs) (push_all vs PriorityQueue_new) =
    (map Inr (sort_key f (rev vs)), PriorityQueue_new)"
proof -
  let ?q = "push_all vs PriorityQueue_new"
  have d: "data ?q = sort_key f (rev vs)" by (rule data_push_all_sort_key [OF R])
  then have "length (data ?q) = length vs" by simp
  with poll_n_all [of ?q] d show ?thesis by (simp add: emptied_is_new)
qed

section \<open>Element types with exact subtraction\<close>

text \<open>
  In a linearly ordered group (\<open>int\<close>, \<open>rat\<close>, \<open>real\<close>) subtraction neither overflows nor
  rounds. There the stored sequence is ordered exactly when it is sorted, and \<open>push\<close> is
  the insertion of insertion sort.
\<close>

lemma call_less_exact:
  fixes e v :: "'a::linordered_ab_group_add"
  shows "(MyComparator_call c e v < 0) = (e < v)"
  by (simp add: MyComparator_call_def)

lemma data_push_insort:
  fixes q :: "'a::linordered_ab_group_add PriorityQueue"
  shows "data (push t q) = insort t (data q)"
  unfolding push_def using list_insert_insort_key [of "compare q" "\<lambda>x. x" "data q" t]
  by (simp add: call_less_exact)

lemma ordered_sorted:
  fixes xs :: "'a::linordered_ab_group_add list"
  shows "ordered c xs = sorted xs"
  by (induction c xs rule: ordered.induct) (fastforce simp: MyComparator_call_def)+

lemma ordered_push:
  fixes q :: "'a::linordered_ab_group_add PriorityQueue"
  shows "ordered (compare q) (data q) \<Longrightarrow> ordered (compare (push t q)) (data (push t q))"
  by (simp add: ordered_sorted data_push_insort sorted_insort)

lemma ordered_tl: "ordered c xs \<Longrightarrow> ordered c (tl xs)"
  by (induction c xs rule: ordered.induct) simp_all

lemma ordered_poll:
  "ordered (compare q) (data q) \<Longrightarrow> ordered (compare (snd (poll q))) (data (snd (poll q)))"
  by (simp add: poll_def ordered_tl)

lemma ordered_step:
  fixes q :: "'a::linordered_ab_group_add PriorityQueue"
  shows "ordered (compare q) (data q) \<Longrightarrow> ordered (compare (step q x)) (data (step q x))"
  by (cases x) (simp_all add: ordered_push ordered_poll)

lemma ordered_foldl_step:
  fixes q :: "'a::linordered_ab_group_add PriorityQueue"
  shows "ordered (compare q) (data q) \<Longrightarrow>
    ordered (compare (foldl step q ops)) (data (foldl step q ops))"
  by (induction ops arbitrary: q) (simp_all add: ordered_step)

lemma ordered_run:
  fixes ops :: "'a::linordered_ab_group_add operation list"
  shows "ordered (compare (run ops)) (data (run ops))"
  unfolding run_def by (rule ordered_foldl_step) (simp add: PriorityQueue_new_def)

lemma ordered_nth:
  "ordered c xs \<Longrightarrow> Suc i < length xs \<Longrightarrow> MyComparator_call c (xs ! i) (xs ! Suc i) \<le> 0"
proof (induction c xs arbitrary: i rule: ordered.induct)
  case (1 c a b xs)
  then show ?case by (cases i) simp_all
qed simp_all

text \<open>
  After \<open>n\<close> pushes of exact values, \<open>n\<close> polls return the sorted sequence of the pushed
  values; equal values cannot be told apart, so their order does not show.
\<close>

lemma conservation_exact:
  fixes vs :: "'a::linordered_ab_group_add list"
  shows "poll_n (length vs) (push_all vs PriorityQueue_new) =
    (map Inr (sort vs), PriorityQueue_new)"
proof -
  have "sort vs = sort (rev vs)" by (rule properties_for_sort) simp_all
  moreover have "\<And>e v :: 'a. (MyComparator_call MyComparator e v < 0) = (e < v)"
    by (simp add: MyComparator_call_def)
  ultimately show ?thesis using poll_n_push_all [of "\<lambda>x. x" vs] by simp
qed

text \<open>
  A signed 32-bit \<open>T\<close>: while the mathematical difference fits the type, the comparator
  returns it, so its sign is the sign of the difference.
\<close>

lemma MyComparator_signed_exact:
  fixes a b :: "32 word"
  assumes "- (2 ^ 31) \<le> sint a - sint b" "sint a - sint b < 2 ^ 31"
  shows "sint (MyComparator_call c a b) = sint a - sint b"
  using assms
  by (simp add: MyComparator_call_def sint_word_ariths signed_take_bit_int_eq_self)

lemma list_insert_spec_push:
  "list_insert (push_loop c xs t) t xs = spec_push (MyComparator_call c) t xs"
  by (induction xs) (simp_all add: list_insert_def)

section \<open>Element types whose comparator has coherent signs\<close>

text \<open>
  Two conditions on the signs the comparator returns: a negative result is also
  \<open><= 0\<close>, and when \<open>compare(a, b)\<close> is not negative, \<open>compare(b, a) <= 0\<close>. They hold for
  exact subtraction, for the tickets, and for a signed type with wrap-around; they fail
  for unsigned types, where nothing is negative. Under them the scan of \<open>push\<close> keeps
  adjacent elements ordered.
\<close>

lemma ordered_Cons_insert:
  fixes t :: "'a::{minus,zero,ord}"
  assumes H1: "\<forall>a b :: 'a. MyComparator_call c a b < 0 \<longrightarrow> MyComparator_call c a b \<le> 0"
    and H2: "\<forall>a b :: 'a. \<not> MyComparator_call c a b < 0 \<longrightarrow> MyComparator_call c b a \<le> 0"
  shows "ordered c xs \<Longrightarrow> ordered c (list_insert (push_loop c xs t) t xs)"
proof (induction xs)
  case Nil
  then show ?case by (simp add: list_insert_def)
next
  case (Cons e es)
  show ?case
  proof (cases "MyComparator_call c e t < 0")
    case False
    with Cons.prems H2 show ?thesis by (simp add: list_insert_def)
  next
    case True
    from Cons.prems have "ordered c es" by (cases es) simp_all
    then have IH: "ordered c (list_insert (push_loop c es t) t es)" by (rule Cons.IH)
    show ?thesis
    proof (cases es)
      case Nil
      with True H1 show ?thesis by (simp add: list_insert_def)
    next
      case (Cons e' es')
      with True H1 H2 IH Cons.prems show ?thesis
        by (auto simp: list_insert_def split: if_splits)
    qed
  qed
qed

lemma ordered_push_sign:
  fixes q :: "'a::{minus,zero,ord} PriorityQueue"
  assumes H1: "\<forall>a b :: 'a. MyComparator_call MyComparator a b < 0 \<longrightarrow> MyComparator_call MyComparator a b \<le> 0"
    and H2: "\<forall>a b :: 'a. \<not> MyComparator_call MyComparator a b < 0 \<longrightarrow> MyComparator_call MyComparator b a \<le> 0"
  shows "ordered (compare q) (data q) \<Longrightarrow> ordered (compare (push t q)) (data (push t q))"
proof -
  have c: "compare q = MyComparator" by (rule compare_unique)
  assume "ordered (compare q) (data q)"
  then have "ordered MyComparator (list_insert (push_loop MyComparator (data q) t) t (data q))"
    unfolding c by (rule ordered_Cons_insert [OF H1 H2])
  then show ?thesis by (simp add: push_def c)
qed

lemma ordered_foldl_step_sign:
  fixes q :: "'a::{minus,zero,ord} PriorityQueue"
  assumes H1: "\<forall>a b :: 'a. MyComparator_call MyComparator a b < 0 \<longrightarrow> MyComparator_call MyComparator a b \<le> 0"
    and H2: "\<forall>a b :: 'a. \<not> MyComparator_call MyComparator a b < 0 \<longrightarrow> MyComparator_call MyComparator b a \<le> 0"
  shows "ordered (compare q) (data q) \<Longrightarrow>
    ordered (compare (foldl step q ops)) (data (foldl step q ops))"
proof (induction ops arbitrary: q)
  case Nil
  then show ?case by simp
next
  case (Cons x xs)
  have "ordered (compare (step q x)) (data (step q x))"
    using Cons.prems by (cases x) (simp_all add: ordered_push_sign [OF H1 H2] ordered_poll)
  then show ?case using Cons.IH by simp
qed

lemma ordered_run_sign:
  fixes ops :: "'a::{minus,zero,ord} operation list"
  assumes H1: "\<forall>a b :: 'a. MyComparator_call MyComparator a b < 0 \<longrightarrow> MyComparator_call MyComparator a b \<le> 0"
    and H2: "\<forall>a b :: 'a. \<not> MyComparator_call MyComparator a b < 0 \<longrightarrow> MyComparator_call MyComparator b a \<le> 0"
  shows "ordered (compare (run ops)) (data (run ops))"
  unfolding run_def
  by (rule ordered_foldl_step_sign [OF H1 H2]) (simp add: PriorityQueue_new_def)

lemma sint_neg_nonneg:
  fixes x :: "'w::len word"
  assumes "0 \<le> sint x"
  shows "sint (- x) \<le> 0"
proof -
  have "sint x < 2 ^ (LENGTH('w) - 1)" by (rule sint_lt)
  with assms have "signed_take_bit (LENGTH('w) - 1) (- sint x) = - sint x"
    by (intro signed_take_bit_int_eq_self) simp_all
  with assms show ?thesis by (simp add: sint_word_ariths)
qed

lemma int8_sign:
  "\<forall>a b :: int8. \<not> MyComparator_call c a b < 0 \<longrightarrow> MyComparator_call c b a \<le> 0"
proof (intro allI impI)
  fix a b :: int8
  assume "\<not> MyComparator_call c a b < 0"
  then have "0 \<le> sint (bits a - bits b)"
    by (simp add: MyComparator_call_def minus_int8_def zero_int8_def less_int8_def)
  then have "sint (- (bits a - bits b)) \<le> 0" by (rule sint_neg_nonneg)
  then show "MyComparator_call c b a \<le> 0"
    by (simp add: MyComparator_call_def minus_int8_def zero_int8_def less_eq_int8_def)
qed

lemma int8_sign_le:
  "\<forall>a b :: int8. MyComparator_call c a b < 0 \<longrightarrow> MyComparator_call c a b \<le> 0"
  by (simp add: less_imp_le)

lemma Ticket_sign_le:
  "\<forall>a b :: Ticket. MyComparator_call c a b < 0 \<longrightarrow> MyComparator_call c a b \<le> 0"
  by (simp add: less_imp_le)

lemma Ticket_sign:
  "\<forall>a b :: Ticket. \<not> MyComparator_call c a b < 0 \<longrightarrow> MyComparator_call c b a \<le> 0"
  by (simp add: MyComparator_call_def minus_Ticket_def zero_Ticket_def less_Ticket_def
      less_eq_Ticket_def)

lemma exact_sign_le:
  "\<forall>a b :: 'a::linordered_ab_group_add.
     MyComparator_call c a b < 0 \<longrightarrow> MyComparator_call c a b \<le> 0"
  by (auto simp: MyComparator_call_def)

lemma exact_sign:
  "\<forall>a b :: 'a::linordered_ab_group_add.
     \<not> MyComparator_call c a b < 0 \<longrightarrow> MyComparator_call c b a \<le> 0"
  by (auto simp: MyComparator_call_def)

section \<open>Facts for every element type\<close>

lemma mset_data_push: "mset (data (push v q)) = add_mset v (mset (data q))"
proof -
  have "mset (take n xs @ v # drop n xs) = add_mset v (mset xs)" for n and xs :: "'a list"
    by (metis append_take_drop_id mset.simps(2) mset_append union_mset_add_mset_right)
  then show ?thesis by (simp add: push_def list_insert_def)
qed

lemma mset_data_push_all: "mset (data (push_all vs q)) = mset vs + mset (data q)"
  unfolding push_all_def
  by (induction vs arbitrary: q) (simp_all add: mset_data_push)

lemma length_data_push_all: "length (data (push_all vs PriorityQueue_new)) = length vs"
proof -
  have "size (mset (data (push_all vs PriorityQueue_new))) = size (mset vs)"
    by (simp add: mset_data_push_all PriorityQueue_new_def)
  then show ?thesis by simp
qed

lemma poll_n_push_all_every:
  "poll_n (length vs) (push_all vs PriorityQueue_new) =
     (map Inr (data (push_all vs PriorityQueue_new)), PriorityQueue_new)"
  using poll_n_all [of "push_all vs PriorityQueue_new"]
  by (simp add: length_data_push_all emptied_is_new)

lemma strictly_less_not_equal:
  fixes x :: "'a::{zero,preorder}"
  shows "x < 0 \<Longrightarrow> x \<noteq> 0"
  by auto

lemma push_in_front_of_equals:
  fixes v :: "'a::{minus,zero,preorder}"
  shows "\<exists>us ws. data q = us @ ws \<and> data (push v q) = us @ v # ws \<and>
       (\<forall>e\<in>set us. MyComparator_call (compare q) e v < 0 \<and>
          MyComparator_call (compare q) e v \<noteq> 0) \<and>
       fst (poll_n (Suc (length (data q))) (push v q)) = map Inr (us @ v # ws)"
proof -
  let ?P = "\<lambda>e. MyComparator_call (compare q) e v < 0"
  let ?us = "takeWhile ?P (data q)" and ?ws = "dropWhile ?P (data q)"
  have s: "data q = ?us @ ?ws" by simp
  have d: "data (push v q) = ?us @ v # ?ws" by (rule data_push)
  have l: "\<forall>e\<in>set ?us. ?P e \<and> MyComparator_call (compare q) e v \<noteq> 0"
    using set_takeWhileD [of _ ?P "data q"] strictly_less_not_equal by blast
  have "length (data (push v q)) = Suc (length (data q))"
    by (simp add: push_def list_insert_def push_loop_le_length min_absorb2)
  with poll_n_all [of "push v q"]
  have p: "fst (poll_n (Suc (length (data q))) (push v q)) = map Inr (?us @ v # ?ws)"
    by (simp add: d)
  from s d l p show ?thesis by blast
qed

lemma push_twice_equal:
  fixes a b :: "'a::{minus,zero,preorder}" and q :: "'a PriorityQueue"
  assumes eq: "MyComparator_call (compare q) a b = 0"
  shows "\<exists>xs ys zs. data q = xs @ ys @ zs \<and>
     data (push b (push a q)) = xs @ b # ys @ a # zs \<and>
     (\<forall>e\<in>set xs. MyComparator_call (compare q) e b < 0 \<and>
        MyComparator_call (compare q) e b \<noteq> 0) \<and>
     fst (poll_n (length (data q) + 2) (push b (push a q))) = map Inr (xs @ b # ys @ a # zs)"
proof -
  let ?c = "compare q" and ?d = "data q"
  let ?P = "\<lambda>e. MyComparator_call ?c e b < 0"
  let ?i = "push_loop ?c ?d a"
  let ?d1 = "take ?i ?d @ a # drop ?i ?d"
  let ?j = "push_loop ?c ?d1 b"
  have d1: "data (push a q) = ?d1" by (simp add: push_def list_insert_def)
  have c1: "compare (push a q) = ?c" by (rule compare_push)
  have "\<not> MyComparator_call ?c a b < 0" by (simp add: eq)
  then have j: "?j \<le> length (take ?i ?d)"
    unfolding push_loop_takeWhile by (rule takeWhile_stops)
  have d2: "data (push b (push a q)) = take ?j ?d1 @ b # drop ?j ?d1"
    by (simp add: push_def [of b] list_insert_def d1 c1)
  let ?xs = "take ?j (take ?i ?d)" and ?ys = "drop ?j (take ?i ?d)" and ?zs = "drop ?i ?d"
  have t: "take ?j ?d1 = ?xs" using j by simp
  have r: "drop ?j ?d1 = ?ys @ a # ?zs" using j by simp
  have s: "?d = ?xs @ ?ys @ ?zs" by (simp only: append_assoc [symmetric] append_take_drop_id)
  have f: "data (push b (push a q)) = ?xs @ b # ?ys @ a # ?zs"
    by (simp only: d2 t r)
  have "take ?j ?d1 = takeWhile ?P ?d1"
    unfolding push_loop_takeWhile by (rule takeWhile_eq_take [symmetric])
  with t have "?xs = takeWhile ?P ?d1" by simp
  then have l: "\<forall>e\<in>set ?xs. ?P e \<and> MyComparator_call ?c e b \<noteq> 0"
    using set_takeWhileD [of _ ?P ?d1] strictly_less_not_equal by metis
  have "length (data (push b (push a q))) = length ?d + 2"
    by (simp only: d2 length_append length_Cons length_take length_drop d1 [symmetric])
       (simp add: d1 push_loop_le_length min_absorb2)
  with poll_n_all [of "push b (push a q)"]
  have p: "fst (poll_n (length ?d + 2) (push b (push a q))) = map Inr (data (push b (push a q)))"
    by simp
  show ?thesis
    using s f p l by (metis (no_types, lifting))
qed

lemma ties_reversed:
  fixes f :: "'a::{minus,zero,ord} \<Rightarrow> 'k::linorder"
  assumes R: "\<forall>e v. (MyComparator_call MyComparator e v < 0) = (f e < f v)"
  shows "data (push_all vs PriorityQueue_new) = sort_key f (rev vs)"
    and "filter (\<lambda>y. f y = k) (data (push_all vs PriorityQueue_new)) =
      rev (filter (\<lambda>y. f y = k) vs)"
proof -
  from R have R': "\<And>e v. (MyComparator_call MyComparator e v < 0) = (f e < f v)" by blast
  show d: "data (push_all vs PriorityQueue_new) = sort_key f (rev vs)"
    by (rule data_push_all_sort_key [OF R'])
  show "filter (\<lambda>y. f y = k) (data (push_all vs PriorityQueue_new)) =
      rev (filter (\<lambda>y. f y = k) vs)"
    by (simp add: d sort_key_stable rev_filter)
qed

section \<open>The claims\<close>

subsection \<open>Ordering\<close>

text \<open>
  For an unsigned 32-bit element type, push 1 then push 2 leaves the queue holding 2, 1:
  \<open>compare(1, 2)\<close> is \<open>2 ^ 32 - 1\<close>, not negative, so 2 goes to the front, and
  \<open>compare(2, 1) = 1\<close> is not \<open><= 0\<close>.
\<close>

theorem ordering_unsigned_counterexample:
  "data (run [Push 1, Push (2 :: 32 word)]) = [2, 1] \<and>
   MyComparator_call (compare (run [Push 1, Push (2 :: 32 word)])) 2 1 = 1 \<and>
   \<not> MyComparator_call (compare (run [Push 1, Push (2 :: 32 word)])) 2 1 \<le> 0 \<and>
   \<not> ordered (compare (run [Push 1, Push (2 :: 32 word)])) (data (run [Push 1, Push 2]))"
  by (simp add: run_def PriorityQueue_new_def push_def list_insert_def MyComparator_call_def)

text \<open>
  C1, amended. Let the element type be one whose comparator has coherent signs: a
  negative result is \<open><= 0\<close>, and \<open>compare(b, a) <= 0\<close> whenever \<open>compare(a, b)\<close> is not
  negative (exact subtraction, two's complement signed subtraction; not unsigned
  subtraction). Then in every state reached from the empty queue by pushes and polls,
  hence after every prefix of a sequence of pushes, each adjacent pair \<open>a\<close> (earlier),
  \<open>b\<close> (later) of the stored sequence has \<open>compare(a, b) <= 0\<close>, and each single \<open>push\<close>
  and each single \<open>poll\<close> preserves this.
\<close>

theorem ordering_invariant:
  fixes ops :: "'a::{minus,zero,ord} operation list" and q :: "'a PriorityQueue"
  assumes H1: "\<forall>a b :: 'a. MyComparator_call MyComparator a b < 0 \<longrightarrow> MyComparator_call MyComparator a b \<le> 0"
    and H2: "\<forall>a b :: 'a. \<not> MyComparator_call MyComparator a b < 0 \<longrightarrow> MyComparator_call MyComparator b a \<le> 0"
  shows "ordered (compare (run ops)) (data (run ops)) \<and>
    ordered (compare (push_all (take k vs) PriorityQueue_new :: 'a PriorityQueue))
      (data (push_all (take k vs) PriorityQueue_new :: 'a PriorityQueue)) \<and>
    (ordered (compare q) (data q) \<longrightarrow>
       ordered (compare (push t q)) (data (push t q)) \<and>
       ordered (compare (snd (poll q))) (data (snd (poll q))))"
  by (simp add: ordered_run_sign [OF H1 H2] ordered_push_sign [OF H1 H2] ordered_poll push_all_run)

theorem ordering_invariant_witness:
  "MyComparator_call MyComparator (Int8 100) (Int8 (- 100)) = Int8 (- 56) \<and>
   data (run [Push (Int8 100), Push (Int8 (- 100))]) = [Int8 100, Int8 (- 100)] \<and>
   ordered (compare (run [Push (Int8 100), Push (Int8 (- 100))]))
     (data (run [Push (Int8 100), Push (Int8 (- 100))])) \<and>
   data (run [Push (Int8 5), Push (Int8 1), Poll, Push (Int8 3)]) = [Int8 3, Int8 5] \<and>
   ordered (compare (run [Push (Int8 5), Push (Int8 1), Poll, Push (Int8 3)]))
     (data (run [Push (Int8 5), Push (Int8 1), Poll, Push (Int8 3)]))"
proof -
  have e: "MyComparator_call MyComparator (Int8 100) (Int8 (- 100)) = Int8 (- 56)"
    by (simp add: MyComparator_call_def minus_int8_def)
  have d1: "data (run [Push (Int8 100), Push (Int8 (- 100))]) = [Int8 100, Int8 (- 100)]"
    by (simp add: run_def PriorityQueue_new_def push_def list_insert_def MyComparator_call_def
        minus_int8_def zero_int8_def less_int8_def)
  have d2: "data (run [Push (Int8 5), Push (Int8 1), Poll, Push (Int8 3)]) = [Int8 3, Int8 5]"
    by (simp add: run_def PriorityQueue_new_def push_def poll_def list_insert_def
        MyComparator_call_def minus_int8_def zero_int8_def less_int8_def)
  show ?thesis
    using e d1 d2
      ordering_invariant [OF int8_sign_le int8_sign,
        of "[Push (Int8 100), Push (Int8 (- 100))]" 0 "[]" PriorityQueue_new "Int8 0"]
      ordering_invariant [OF int8_sign_le int8_sign,
        of "[Push (Int8 5), Push (Int8 1), Poll, Push (Int8 3)]" 0 "[]" PriorityQueue_new "Int8 0"]
    by blast
qed

text \<open>
  The invariant with the sign the data model writes, \<open>compare(a, b) >= 0\<close>, fails after
  push 1, push 2 on \<open>int\<close>: the queue holds 1, 2 and \<open>compare(1, 2) = -1\<close>.
\<close>

theorem spec_invariant_counterexample:
  "data (run [Push 1, Push (2::int)]) = [1, 2] \<and>
   MyComparator_call (compare (run [Push 1, Push (2::int)])) 1 2 = - 1 \<and>
   \<not> spec_invariant (compare (run [Push 1, Push (2::int)])) (data (run [Push 1, Push 2]))"
  by (simp add: run_def PriorityQueue_new_def push_def list_insert_def MyComparator_call_def)

text \<open>
  C2, amended. In every state reached by pushes and polls from the empty queue, over an
  element type with exact subtraction, the elements at adjacent positions \<open>i\<close> and \<open>i + 1\<close>
  have \<open>compare(a, b) <= 0\<close>, \<open>a\<close> the earlier one.
\<close>

theorem adjacent_nonpositive:
  fixes ops :: "'a::linordered_ab_group_add operation list"
  assumes "Suc i < length (data (run ops))"
  shows "MyComparator_call (compare (run ops)) (data (run ops) ! i) (data (run ops) ! Suc i) \<le> 0"
  using ordered_run assms by (rule ordered_nth)

theorem adjacent_nonpositive_witness:
  "Suc 0 < length (data (run [Push 1, Push (2::int)])) \<and>
   MyComparator_call (compare (run [Push 1, Push (2::int)]))
     (data (run [Push 1, Push 2]) ! 0) (data (run [Push 1, Push 2]) ! Suc 0) \<le> 0 \<and>
   MyComparator_call (compare (run [Push 1, Push (2::int)]))
     (data (run [Push 1, Push 2]) ! 0) (data (run [Push 1, Push 2]) ! Suc 0) = - 1"
proof -
  have h: "Suc 0 < length (data (run [Push 1, Push (2::int)]))"
    by (simp add: run_def PriorityQueue_new_def push_def list_insert_def MyComparator_call_def)
  show ?thesis
    using h adjacent_nonpositive [OF h]
    by (simp add: run_def PriorityQueue_new_def push_def list_insert_def MyComparator_call_def)
qed

subsection \<open>Equal ranks\<close>

text \<open>
  Two tickets of rank 3 pushed in the order label 1, label 2 are polled in the order
  label 2, label 1: the scan stops at the first element that is not strictly less, which
  is the equal element already stored. On \<open>int\<close> the scan for a second 3 stops at position
  0, in front of the stored 3.
\<close>

theorem equal_rank_counterexample:
  "MyComparator_call MyComparator (Ticket 3 1) (Ticket 3 2) = 0 \<and>
   fst (poll_n 2 (push (Ticket 3 2) (push (Ticket 3 1) PriorityQueue_new))) =
     [Inr (Ticket 3 2), Inr (Ticket 3 1)] \<and>
   MyComparator_call MyComparator (3::int) 3 = 0 \<and>
   push_loop MyComparator [3::int] 3 = 0"
  by (simp add: MyComparator_call_def minus_Ticket_def zero_Ticket_def less_Ticket_def
      PriorityQueue_new_def push_def list_insert_def poll_def numeral_2_eq_2)

text \<open>
  C3, amended. In every queue state, \<open>push(v)\<close> puts \<open>v\<close> in front of every stored element
  equal to it under the comparator: all that stays in front of \<open>v\<close> is strictly less, and
  \<open>v\<close> is polled before everything behind it. So pushing \<open>a\<close> and then \<open>b\<close> with
  \<open>compare(a, b) == 0\<close> leaves \<open>b\<close> in front of \<open>a\<close>, with nothing equal to \<open>b\<close> in front of
  \<open>b\<close> and the older elements as they were, and \<open>b\<close> is polled before \<open>a\<close>. Elements of
  equal rank leave the queue in the reverse of their insertion order: where the sign of the
  comparator follows a linear rank, the polls after any pushes from the empty queue return
  the values of each rank in the reverse of the order they were pushed in. (The element
  type is any with the operations of the template whose \<open><\<close> is irreflexive.)
\<close>

theorem equal_rank_reverse_order:
  fixes a b v :: "'a::{minus,zero,preorder}" and q :: "'a PriorityQueue"
    and f :: "'a \<Rightarrow> 'k::linorder"
  shows
   "(\<exists>us ws. data q = us @ ws \<and> data (push v q) = us @ v # ws \<and>
       (\<forall>e\<in>set us. MyComparator_call (compare q) e v < 0 \<and>
          MyComparator_call (compare q) e v \<noteq> 0) \<and>
       fst (poll_n (Suc (length (data q))) (push v q)) = map Inr (us @ v # ws)) \<and>
    (MyComparator_call (compare q) a b = 0 \<longrightarrow>
       (\<exists>xs ys zs. data q = xs @ ys @ zs \<and>
          data (push b (push a q)) = xs @ b # ys @ a # zs \<and>
          (\<forall>e\<in>set xs. MyComparator_call (compare q) e b < 0 \<and>
             MyComparator_call (compare q) e b \<noteq> 0) \<and>
          fst (poll_n (length (data q) + 2) (push b (push a q))) =
            map Inr (xs @ b # ys @ a # zs))) \<and>
    ((\<forall>e v :: 'a. (MyComparator_call MyComparator e v < 0) = (f e < f v)) \<longrightarrow>
       fst (poll_n (length vs) (push_all vs PriorityQueue_new)) =
         map Inr (data (push_all vs PriorityQueue_new)) \<and>
       filter (\<lambda>y. f y = k) (data (push_all vs PriorityQueue_new)) =
         rev (filter (\<lambda>y. f y = k) vs))"
  using push_in_front_of_equals [of q v] push_twice_equal [of q a b]
    ties_reversed(2) [where f = f and vs = vs and k = k] poll_n_push_all_every [of vs]
  by simp

theorem equal_rank_reverse_order_witness:
  "MyComparator_call (compare (push (Ticket 1 0) PriorityQueue_new)) (Ticket 3 1) (Ticket 3 2) = 0 \<and>
   data (push (Ticket 3 2) (push (Ticket 3 1) (push (Ticket 1 0) PriorityQueue_new))) =
     [Ticket 1 0, Ticket 3 2, Ticket 3 1] \<and>
   (\<exists>xs ys zs. data (push (Ticket 1 0) PriorityQueue_new) = xs @ ys @ zs \<and>
     data (push (Ticket 3 2) (push (Ticket 3 1) (push (Ticket 1 0) PriorityQueue_new))) =
       xs @ Ticket 3 2 # ys @ Ticket 3 1 # zs) \<and>
   data (push_all [Ticket 3 1, Ticket 1 0, Ticket 3 2, Ticket 3 3] PriorityQueue_new) =
     [Ticket 1 0, Ticket 3 3, Ticket 3 2, Ticket 3 1] \<and>
   filter (\<lambda>y. rank y = 3)
       (data (push_all [Ticket 3 1, Ticket 1 0, Ticket 3 2, Ticket 3 3] PriorityQueue_new)) =
     rev (filter (\<lambda>y. rank y = 3) [Ticket 3 1, Ticket 1 0, Ticket 3 2, Ticket 3 3])"
proof -
  have h: "MyComparator_call (compare (push (Ticket 1 0) PriorityQueue_new))
      (Ticket 3 1) (Ticket 3 2) = 0"
    by (simp add: MyComparator_call_def minus_Ticket_def zero_Ticket_def)
  have e: "data (push (Ticket 3 2) (push (Ticket 3 1) (push (Ticket 1 0) PriorityQueue_new))) =
     [Ticket 1 0, Ticket 3 2, Ticket 3 1]"
    by (simp add: MyComparator_call_def minus_Ticket_def zero_Ticket_def less_Ticket_def
      PriorityQueue_new_def push_def list_insert_def)
  have g: "data (push_all [Ticket 3 1, Ticket 1 0, Ticket 3 2, Ticket 3 3] PriorityQueue_new) =
     [Ticket 1 0, Ticket 3 3, Ticket 3 2, Ticket 3 1]"
    by (simp add: MyComparator_call_def minus_Ticket_def zero_Ticket_def less_Ticket_def
      PriorityQueue_new_def push_all_def push_def list_insert_def)
  have r: "\<forall>e v :: Ticket. (MyComparator_call MyComparator e v < 0) = (rank e < rank v)"
    by (simp add: Ticket_rank)
  from equal_rank_reverse_order
    [of "push (Ticket 1 0) PriorityQueue_new" "Ticket 3 2" "Ticket 3 1" "Ticket 3 2" rank
      "[Ticket 3 1, Ticket 1 0, Ticket 3 2, Ticket 3 3]" 3] h e g r
  show ?thesis by blast
qed

subsection \<open>The empty queue\<close>

text \<open>
  C4. On a queue whose sequence is empty, \<open>poll\<close> throws \<open>EmptyPriorityQueue\<close> and leaves
  the queue as it was; the message of the exception is "PriorityQueue is empty!"; on a
  non-empty queue \<open>poll\<close> returns the front element and removes it, so it throws exactly
  when the queue is empty. The freshly constructed queue and a queue polled as many times
  as it has elements are such empty queues.
\<close>

theorem poll_empty_failure:
  "(data q = [] \<longrightarrow> poll q = (Inl EmptyPriorityQueue, q)) \<and>
   (data q \<noteq> [] \<longrightarrow> poll q = (Inr (hd (data q)), q\<lparr>data := tl (data q)\<rparr>)) \<and>
   ((fst (poll q) = Inl e) = (data q = [])) \<and>
   what e = ''PriorityQueue is empty!'' \<and>
   poll PriorityQueue_new = (Inl EmptyPriorityQueue, PriorityQueue_new) \<and>
   poll (snd (poll_n (length (data q)) q)) =
     (Inl EmptyPriorityQueue, snd (poll_n (length (data q)) q))"
  by (cases e) (simp add: poll_def what_def PriorityQueue_new_def poll_n_all)

theorem poll_empty_failure_witness:
  "data (PriorityQueue_new :: int PriorityQueue) = [] \<and>
   poll (PriorityQueue_new :: int PriorityQueue) = (Inl EmptyPriorityQueue, PriorityQueue_new) \<and>
   data (run [Push (4::int)]) \<noteq> [] \<and>
   poll (run [Push (4::int)]) = (Inr 4, PriorityQueue_new) \<and>
   what EmptyPriorityQueue = ''PriorityQueue is empty!''"
proof -
  have h1: "data (PriorityQueue_new :: int PriorityQueue) = []"
    by (simp add: PriorityQueue_new_def)
  have h2: "data (run [Push (4::int)]) \<noteq> []"
    by (simp add: run_def PriorityQueue_new_def push_def list_insert_def)
  have e: "(run [Push (4::int)])\<lparr>data := tl (data (run [Push (4::int)]))\<rparr> = PriorityQueue_new"
    by (simp add: run_def PriorityQueue_new_def push_def list_insert_def)
  have v: "hd (data (run [Push (4::int)])) = 4"
    by (simp add: run_def PriorityQueue_new_def push_def list_insert_def)
  have w: "what EmptyPriorityQueue = ''PriorityQueue is empty!''"
    using poll_empty_failure [of "PriorityQueue_new :: int PriorityQueue" EmptyPriorityQueue]
    by blast
  have a: "poll (PriorityQueue_new :: int PriorityQueue) = (Inl EmptyPriorityQueue, PriorityQueue_new)"
    using poll_empty_failure [of "PriorityQueue_new :: int PriorityQueue" EmptyPriorityQueue] h1
    by blast
  have b: "poll (run [Push (4::int)]) = (Inr 4, PriorityQueue_new)"
    using poll_empty_failure [of "run [Push (4::int)]" EmptyPriorityQueue] h2 e v
    by metis
  show ?thesis using h1 h2 a b w by blast
qed

subsection \<open>Where push inserts\<close>

text \<open>
  C5. In every queue state, \<open>push(v)\<close> leaves in front of \<open>v\<close> exactly the leading elements
  \<open>e\<close> with \<open>compare(e, v) < 0\<close> and puts \<open>v\<close> immediately in front of the first element for
  which that test is false, or at the end when there is none.
\<close>

theorem push_position:
  fixes q :: "'a::{minus,zero,ord} PriorityQueue"
  shows "data (push v q) =
     takeWhile (\<lambda>e. MyComparator_call (compare q) e v < 0) (data q) @
     v # dropWhile (\<lambda>e. MyComparator_call (compare q) e v < 0) (data q)"
  by (rule data_push)

theorem push_position_witness:
  "data (push (4::int) (run [Push 1, Push 3, Push 5, Push 7])) = [1, 3, 4, 5, 7] \<and>
   takeWhile (\<lambda>e. MyComparator_call MyComparator e (4::int) < 0) [1, 3, 5, 7] = [1, 3] \<and>
   data (push (9::int) (run [Push 1, Push 3])) = [1, 3, 9]"
  using push_position [of 4 "run [Push 1, Push 3, Push 5, Push (7::int)]"]
  by (simp add: run_def PriorityQueue_new_def push_def list_insert_def MyComparator_call_def)

subsection \<open>Conservation\<close>

text \<open>
  Two tickets of one rank pushed in the order label 1, label 2 come back from two polls
  in the order label 2, label 1, which is not their insertion order. On an unsigned
  32-bit type the pushes 1, 2 come back as 2, 1, which is not non-decreasing under the
  comparator.
\<close>

theorem conservation_counterexample:
  "MyComparator_call MyComparator (Ticket 3 1) (Ticket 3 2) = 0 \<and>
   fst (poll_n 2 (push_all [Ticket 3 1, Ticket 3 2] PriorityQueue_new)) =
     [Inr (Ticket 3 2), Inr (Ticket 3 1)] \<and>
   fst (poll_n 2 (push_all [Ticket 3 1, Ticket 3 2] PriorityQueue_new)) \<noteq>
     map Inr [Ticket 3 1, Ticket 3 2] \<and>
   fst (poll_n 2 (push_all [1, 2 :: 32 word] PriorityQueue_new)) = [Inr 2, Inr 1] \<and>
   \<not> MyComparator_call MyComparator (2 :: 32 word) 1 \<le> 0"
  by (simp add: MyComparator_call_def minus_Ticket_def zero_Ticket_def less_Ticket_def
      PriorityQueue_new_def push_all_def push_def list_insert_def poll_def numeral_2_eq_2)

text \<open>
  C6, amended. For every element type, every \<open>n\<close> and every sequence of \<open>n\<close> pushed values:
  from the empty queue, \<open>n\<close> polls after the \<open>n\<close> pushes succeed each time, return the
  stored sequence front to back, which holds exactly the multiset of the pushed values,
  each value once, and leave the empty queue. That sequence is non-decreasing under the
  comparator for the element types whose comparator has coherent signs (a negative result
  is \<open><= 0\<close>, and \<open>compare(b, a) <= 0\<close> whenever \<open>compare(a, b)\<close> is not negative). Values of equal rank come out
  in the reverse of their insertion order: where the sign of the comparator follows a
  linear rank \<open>f\<close>, the sequence is the stable sort by \<open>f\<close> of the reversed push sequence.
\<close>

theorem conservation:
  fixes vs :: "'a::{minus,zero,ord} list" and f :: "'a \<Rightarrow> 'k::linorder"
  shows "poll_n (length vs) (push_all vs PriorityQueue_new) =
      (map Inr (data (push_all vs PriorityQueue_new)), PriorityQueue_new) \<and>
    mset (data (push_all vs PriorityQueue_new)) = mset vs \<and>
    data (snd (poll_n (length vs) (push_all vs PriorityQueue_new))) = [] \<and>
    ((\<forall>a b :: 'a. MyComparator_call MyComparator a b < 0 \<longrightarrow>
         MyComparator_call MyComparator a b \<le> 0) \<and>
     (\<forall>a b :: 'a. \<not> MyComparator_call MyComparator a b < 0 \<longrightarrow>
         MyComparator_call MyComparator b a \<le> 0) \<longrightarrow>
       ordered MyComparator (data (push_all vs PriorityQueue_new))) \<and>
    ((\<forall>e v :: 'a. (MyComparator_call MyComparator e v < 0) = (f e < f v)) \<longrightarrow>
       data (push_all vs PriorityQueue_new) = sort_key f (rev vs) \<and>
       sorted (map f (data (push_all vs PriorityQueue_new))) \<and>
       filter (\<lambda>y. f y = k) (data (push_all vs PriorityQueue_new)) =
         rev (filter (\<lambda>y. f y = k) vs))"
proof -
  let ?q = "push_all vs PriorityQueue_new :: 'a PriorityQueue"
  have 1: "poll_n (length vs) ?q = (map Inr (data ?q), PriorityQueue_new)"
    by (rule poll_n_push_all_every)
  have 2: "mset (data ?q) = mset vs"
    by (simp add: mset_data_push_all PriorityQueue_new_def)
  have 3: "data (snd (poll_n (length vs) ?q)) = []"
    by (simp only: 1 snd_conv) (simp add: PriorityQueue_new_def)
  have 4: "ordered MyComparator (data ?q)"
    if "\<forall>a b :: 'a. MyComparator_call MyComparator a b < 0 \<longrightarrow>
         MyComparator_call MyComparator a b \<le> 0"
      and "\<forall>a b :: 'a. \<not> MyComparator_call MyComparator a b < 0 \<longrightarrow>
         MyComparator_call MyComparator b a \<le> 0"
    using ordered_run_sign [OF that, of "map Push vs"]
    by (simp add: push_all_run compare_unique [of "compare (run (map Push vs))" MyComparator])
  have 5: "data ?q = sort_key f (rev vs) \<and> sorted (map f (data ?q)) \<and>
      filter (\<lambda>y. f y = k) (data ?q) = rev (filter (\<lambda>y. f y = k) vs)"
    if "\<forall>e v :: 'a. (MyComparator_call MyComparator e v < 0) = (f e < f v)"
    using ties_reversed(1) [OF that] ties_reversed(2) [OF that] by simp
  from 1 2 3 4 5 show ?thesis by blast
qed

theorem conservation_witness:
  "poll_n (length [Ticket 3 1, Ticket 1 7, Ticket 3 2])
      (push_all [Ticket 3 1, Ticket 1 7, Ticket 3 2] PriorityQueue_new) =
     (map Inr [Ticket 1 7, Ticket 3 2, Ticket 3 1], PriorityQueue_new) \<and>
   mset [Ticket 1 7, Ticket 3 2, Ticket 3 1] = mset [Ticket 3 1, Ticket 1 7, Ticket 3 2] \<and>
   ordered MyComparator [Ticket 1 7, Ticket 3 2, Ticket 3 1] \<and>
   map rank [Ticket 1 7, Ticket 3 2, Ticket 3 1] = [1, 3, 3] \<and>
   poll_n (length [Int8 100, Int8 (- 100), Int8 7])
      (push_all [Int8 100, Int8 (- 100), Int8 7] PriorityQueue_new) =
     (map Inr [Int8 7, Int8 100, Int8 (- 100)], PriorityQueue_new) \<and>
   ordered MyComparator [Int8 7, Int8 100, Int8 (- 100)]"
proof -
  have d: "data (push_all [Ticket 3 1, Ticket 1 7, Ticket 3 2] PriorityQueue_new) =
      [Ticket 1 7, Ticket 3 2, Ticket 3 1]"
    by (simp add: MyComparator_call_def minus_Ticket_def zero_Ticket_def less_Ticket_def
      PriorityQueue_new_def push_all_def push_def list_insert_def)
  have d8: "data (push_all [Int8 100, Int8 (- 100), Int8 7] PriorityQueue_new) =
      [Int8 7, Int8 100, Int8 (- 100)]"
    by (simp add: MyComparator_call_def minus_int8_def zero_int8_def less_int8_def
      PriorityQueue_new_def push_all_def push_def list_insert_def)
  have r: "\<forall>e v :: Ticket. (MyComparator_call MyComparator e v < 0) = (rank e < rank v)"
    by (simp add: Ticket_rank)
  have m: "map rank [Ticket 1 7, Ticket 3 2, Ticket 3 1] = [1, 3, 3]" by simp
  from conservation [of "[Ticket 3 1, Ticket 1 7, Ticket 3 2]" rank 3]
    conservation [of "[Int8 100, Int8 (- 100), Int8 7]" "\<lambda>x. 0 :: nat" 0]
    Ticket_sign_le [of MyComparator] Ticket_sign [of MyComparator]
    int8_sign_le [of MyComparator] int8_sign [of MyComparator] r m
  show ?thesis unfolding d d8 by metis
qed

subsection \<open>The default comparator\<close>

text \<open>
  C7. The comparator returns \<open>a - b\<close>. Over a type with exact subtraction the result is
  negative exactly when \<open>a < b\<close>, positive exactly when \<open>a > b\<close> and zero exactly when
  \<open>a = b\<close>.
\<close>

theorem MyComparator_three_way:
  fixes a b :: "'a::linordered_ab_group_add"
  shows "MyComparator_call c a b = a - b \<and>
    (MyComparator_call c a b < 0) = (a < b) \<and>
    (0 < MyComparator_call c a b) = (b < a) \<and>
    (MyComparator_call c a b = 0) = (a = b)"
  by (simp add: MyComparator_call_def)

theorem MyComparator_three_way_witness:
  "MyComparator_call MyComparator (3::int) 5 = - 2 \<and>
   MyComparator_call MyComparator (3::int) 5 < 0 \<and>
   0 < MyComparator_call MyComparator (5::int) 3 \<and>
   MyComparator_call MyComparator (5::int) 5 = 0"
  using MyComparator_three_way [of MyComparator "3::int" 5]
    MyComparator_three_way [of MyComparator "5::int" 3]
    MyComparator_three_way [of MyComparator "5::int" 5]
  by simp

text \<open>
  C8. For an unsigned \<open>w\<close>-bit element type the comparator's result is the difference
  modulo \<open>2 ^ w\<close>, which is never below zero, whatever \<open>a\<close> and \<open>b\<close> are. So the scan of
  \<open>push\<close> never advances, and \<open>push\<close> puts the element at the front.
\<close>

theorem unsigned_never_negative:
  fixes a b t :: "'w::len word" and q :: "'w word PriorityQueue"
  shows "uint (MyComparator_call c a b) = (uint a - uint b) mod 2 ^ LENGTH('w) \<and>
    \<not> MyComparator_call c a b < 0 \<and>
    push_loop c xs t = 0 \<and>
    data (push t q) = t # data q"
proof -
  have 0: "uint (MyComparator_call c a b) = (uint a - uint b) mod 2 ^ LENGTH('w)"
    by (simp add: MyComparator_call_def uint_word_ariths)
  have 1: "\<not> MyComparator_call c a b < 0" by simp
  have 2: "\<And>(c' :: 'w word MyComparator) ys. push_loop c' ys t = 0"
  proof -
    fix c' :: "'w word MyComparator" and ys
    show "push_loop c' ys t = 0" by (cases ys) simp_all
  qed
  show ?thesis using 0 1 2 by (simp add: push_def list_insert_def)
qed

theorem unsigned_never_negative_witness:
  "(1 :: 32 word) < 2 \<and>
   MyComparator_call MyComparator (1 :: 32 word) 2 = 4294967295 \<and>
   \<not> MyComparator_call MyComparator (1 :: 32 word) 2 < 0 \<and>
   data (push (2 :: 32 word) (push 1 PriorityQueue_new)) = [2, 1]"
  using unsigned_never_negative [of MyComparator "1 :: 32 word" 2 "[]" 2 "push 1 PriorityQueue_new"]
  by (simp add: MyComparator_call_def PriorityQueue_new_def push_def list_insert_def)

subsection \<open>Where the comparator comes from\<close>

text \<open>
  A caller who wants the descending order of \<open>compare(a, b) = b - a\<close> cannot have it: the
  queue of the specification built with that comparator holds 2, 1 after push 1, push 2,
  and the queue of the code, which has no way to take a comparator, holds 1, 2.
\<close>

theorem pluggable_comparator_counterexample:
  "data (push 2 (push (1::int) PriorityQueue_new)) = [1, 2] \<and>
   spec_push (\<lambda>a b. b - a) 2 (spec_push (\<lambda>a b. b - a) (1::int) []) = [2, 1] \<and>
   data (push 2 (push (1::int) PriorityQueue_new)) \<noteq>
     spec_push (\<lambda>a b. b - a) 2 (spec_push (\<lambda>a b. b - a) (1::int) [])"
  by (simp add: MyComparator_call_def PriorityQueue_new_def push_def list_insert_def)

text \<open>
  C9, amended. The comparator is not chosen by the caller: every queue, from its
  construction on, holds by value the one \<open>MyComparator<T>\<close>, which subtracts; \<open>push\<close> and
  \<open>poll\<close> leave it in place, and it is the comparator every \<open>push\<close> uses, so the queue is
  the queue of the specification at the comparator \<open>a - b\<close>.
\<close>

theorem comparator_fixed:
  fixes q :: "'a::{minus,zero,ord} PriorityQueue"
  shows "compare q = MyComparator \<and>
    compare (PriorityQueue_new :: 'a PriorityQueue) = MyComparator \<and>
    compare (push t q) = compare q \<and>
    compare (snd (poll q)) = compare q \<and>
    MyComparator_call (compare q) a b = a - b \<and>
    data (push t q) = spec_push (\<lambda>a b. a - b) t (data q)"
proof -
  have "MyComparator_call (compare q) = (\<lambda>a b. a - b)"
    by (intro ext) (simp add: MyComparator_call_def)
  then have "data (push t q) = spec_push (\<lambda>a b. a - b) t (data q)"
    using list_insert_spec_push [of "compare q" "data q" t] by (simp add: push_def)
  then show ?thesis
    by (simp add: compare_unique [of "compare q" MyComparator] PriorityQueue_new_def
        compare_push poll_def MyComparator_call_def)
qed

theorem comparator_fixed_witness:
  "compare (run [Push 5, Push (1::int)]) = MyComparator \<and>
   data (push 3 (run [Push 5, Push (1::int)])) = spec_push (\<lambda>a b. a - b) 3 [1, 5] \<and>
   spec_push (\<lambda>a b. a - b) (3::int) [1, 5] = [1, 3, 5]"
  using comparator_fixed [of "run [Push 5, Push (1::int)]" 3]
  by (simp add: run_def PriorityQueue_new_def push_def list_insert_def MyComparator_call_def)

subsection \<open>What push leaves alone\<close>

text \<open>
  C10. In every queue state, \<open>push(v)\<close> splits the stored sequence in two and puts \<open>v\<close>
  between the parts: every old element stays, in the same relative order, exactly one
  \<open>v\<close> is added, the length grows by one, and the comparator is untouched.
\<close>

theorem push_frame:
  fixes q :: "'a::{minus,zero,ord} PriorityQueue"
  shows "(\<exists>xs ys. data q = xs @ ys \<and> data (push v q) = xs @ v # ys) \<and>
    length (data (push v q)) = Suc (length (data q)) \<and>
    mset (data (push v q)) = add_mset v (mset (data q)) \<and>
    subseq (data q) (data (push v q)) \<and>
    compare (push v q) = compare q"
proof -
  let ?i = "push_loop (compare q) (data q) v"
  have d: "data (push v q) = take ?i (data q) @ v # drop ?i (data q)"
    by (simp add: push_def list_insert_def)
  have s: "data q = take ?i (data q) @ drop ?i (data q)" by simp
  have 1: "\<exists>xs ys. data q = xs @ ys \<and> data (push v q) = xs @ v # ys"
    using d s by blast
  then obtain xs ys where xy: "data q = xs @ ys" "data (push v q) = xs @ v # ys" by blast
  have 2: "length (data (push v q)) = Suc (length (data q))" using xy by simp
  have 3: "mset (data (push v q)) = add_mset v (mset (data q))" using xy by simp
  have 4: "subseq (data q) (data (push v q))" unfolding xy
    by (intro list_emb_append_mono) auto
  show ?thesis using 1 2 3 4 by (simp add: compare_push)
qed

theorem push_frame_witness:
  "data (run [Push 5, Push (1::int)]) = [1, 5] \<and>
   data (push 3 (run [Push 5, Push (1::int)])) = [1, 3, 5] \<and>
   length (data (push 3 (run [Push 5, Push (1::int)]))) = Suc (length (data (run [Push 5, Push (1::int)]))) \<and>
   subseq [1, 5] (data (push 3 (run [Push 5, Push (1::int)])))"
  using push_frame [of "run [Push 5, Push (1::int)]" 3]
  by (simp add: run_def PriorityQueue_new_def push_def list_insert_def MyComparator_call_def)

end
